theory Spec2Isabelle
  imports Main
begin

section \<open>JavaScript values used by the app component\<close>

text \<open>
  The component (\<^verbatim>\<open>AppComponent\<close>, app.component.ts) computes with JavaScript numbers
  and strings. Its numbers are usage counts: what \<^verbatim>\<open>parseInt\<close> returns, and such a
  number plus 1 or plus 7. These are the doubles with an integer value, \<^verbatim>\<open>NaN\<close>,
  \<^verbatim>\<open>Infinity\<close> and \<^verbatim>\<open>-Infinity\<close>, and the number type has exactly these; \<^verbatim>\<open>-0\<close> is
  \<open>0\<close>, from which no operation used here tells it apart. \<open>Num i\<close> is the double of
  value \<open>i\<close>. Strings are lists of code units below 256.
\<close>

datatype jsnum = NaN | PosInf | NegInf | Num int

subsection \<open>Rounding an integer to a double\<close>

text \<open>
  A double has a mantissa of 53 bits and is below \<open>2 ^ 1024\<close> in magnitude. An integer
  of more bits is rounded to 53 bits, to the nearest and on a tie to the even mantissa;
  what rounds to \<open>2 ^ 1024\<close> or more is infinite. \<open>toDouble i\<close> is the number for the
  integer \<open>i\<close>.
\<close>

definition mantissa :: nat where
  "mantissa = 53"

definition maxExponent :: nat where
  "maxExponent = 1024"

fun bitlen :: "nat \<Rightarrow> nat" where
  "bitlen n = (if n = 0 then 0 else Suc (bitlen (n div 2)))"

definition round_nat :: "nat \<Rightarrow> nat" where
  "round_nat n =
     (if n < 2 ^ mantissa then n
      else (let e = bitlen n - mantissa; q = n div 2 ^ e; r = n mod 2 ^ e; h = 2 ^ (e - 1);
                q' = (if h < r \<or> (r = h \<and> odd q) then q + 1 else q)
            in q' * 2 ^ e))"

definition toDouble :: "int \<Rightarrow> jsnum" where
  "toDouble i =
     (let m = round_nat (nat \<bar>i\<bar>)
      in if 2 ^ maxExponent \<le> m then (if i < 0 then NegInf else PosInf)
         else Num (if i < 0 then - int m else int m))"

subsection \<open>Comparison and addition\<close>

text \<open>\<^verbatim>\<open><\<close>, \<^verbatim>\<open>>\<close>, \<^verbatim>\<open>>=\<close> and \<^verbatim>\<open>===\<close> are false when an operand is \<open>NaN\<close>;
  \<^verbatim>\<open>+\<close> rounds the exact sum.\<close>

fun js_lt :: "jsnum \<Rightarrow> jsnum \<Rightarrow> bool" where
  "js_lt (Num a) (Num b) = (a < b)"
| "js_lt (Num a) PosInf = True"
| "js_lt NegInf (Num b) = True"
| "js_lt NegInf PosInf = True"
| "js_lt _ _ = False"

fun js_gt :: "jsnum \<Rightarrow> jsnum \<Rightarrow> bool" where
  "js_gt (Num a) (Num b) = (a > b)"
| "js_gt PosInf (Num b) = True"
| "js_gt (Num a) NegInf = True"
| "js_gt PosInf NegInf = True"
| "js_gt _ _ = False"


fun js_strict_eq :: "jsnum \<Rightarrow> jsnum \<Rightarrow> bool" where
  "js_strict_eq (Num a) (Num b) = (a = b)"
| "js_strict_eq PosInf PosInf = True"
| "js_strict_eq NegInf NegInf = True"
| "js_strict_eq _ _ = False"

fun js_add :: "jsnum \<Rightarrow> jsnum \<Rightarrow> jsnum" where
  "js_add (Num a) (Num b) = toDouble (a + b)"
| "js_add NaN _ = NaN"
| "js_add _ NaN = NaN"
| "js_add PosInf NegInf = NaN"
| "js_add NegInf PosInf = NaN"
| "js_add PosInf _ = PosInf"
| "js_add _ PosInf = PosInf"
| "js_add NegInf _ = NegInf"
| "js_add _ NegInf = NegInf"

text \<open>Truthiness, as tested by \<^verbatim>\<open>if (x)\<close> and \<^verbatim>\<open>x && ...\<close>: \<^verbatim>\<open>null\<close> and
  \<^verbatim>\<open>undefined\<close> (here \<open>None\<close>), the empty string, \<open>0\<close>, \<open>NaN\<close> and \<^verbatim>\<open>false\<close> are
  falsy.\<close>

fun truthy_num :: "jsnum option \<Rightarrow> bool" where
  "truthy_num None = False"
| "truthy_num (Some NaN) = False"
| "truthy_num (Some (Num n)) = (n \<noteq> 0)"
| "truthy_num (Some PosInf) = True"
| "truthy_num (Some NegInf) = True"

fun truthy_str :: "string option \<Rightarrow> bool" where
  "truthy_str None = False"
| "truthy_str (Some s) = (s \<noteq> [])"

fun truthy_bool :: "bool option \<Rightarrow> bool" where
  "truthy_bool None = False"
| "truthy_bool (Some b) = b"

subsection \<open>Number to string: the template literal \<^verbatim>\<open>`${n}`\<close>\<close>

text \<open>
  \<^verbatim>\<open>Number::toString\<close>. A positive double \<open>x\<close> is printed from the decimal \<open>s * 10 ^ j\<close>
  with the fewest digits \<open>s\<close> that rounds to \<open>x\<close>, the nearest to \<open>x\<close> when there are
  two (the even \<open>s\<close> on a tie): \<open>shortestFrom\<close> looks for it from the most zeros down,
  among the two multiples of \<open>10 ^ j\<close> around \<open>x\<close>. Up to 21 digits it is printed in
  full, and beyond in exponent form, as \<^verbatim>\<open>1.1805916207174113e+21\<close>.
\<close>

definition digit_char :: "nat \<Rightarrow> char" where
  "digit_char d = char_of (48 + d)"

fun nat_toString :: "nat \<Rightarrow> string" where
  "nat_toString n =
     (if n < 10 then [digit_char n]
      else nat_toString (n div 10) @ [digit_char (n mod 10)])"

fun shortestFrom :: "nat \<Rightarrow> nat \<Rightarrow> nat" where
  "shortestFrom x 0 = x"
| "shortestFrom x (Suc j) =
     (let p = 10 ^ Suc j; lo = (x div p) * p; hi = lo + p;
          okLo = (0 < lo \<and> toDouble (int lo) = Num (int x));
          okHi = (toDouble (int hi) = Num (int x))
      in if okLo \<and> okHi then
           (if x - lo < hi - x then lo
            else if hi - x < x - lo then hi
            else if even (x div p) then lo else hi)
         else if okLo then lo
         else if okHi then hi
         else shortestFrom x j)"

definition stripZeros :: "string \<Rightarrow> string" where
  "stripZeros ds = rev (dropWhile (\<lambda>c. c = CHR ''0'') (rev ds))"

definition pos_toString :: "nat \<Rightarrow> string" where
  "pos_toString x =
     (let ds = nat_toString (shortestFrom x (length (nat_toString x)));
          n = length ds
      in if n \<le> 21 then ds
         else (let sd = stripZeros ds
               in (case sd of [] \<Rightarrow> []
                   | d # rest \<Rightarrow> if rest = [] then [d] else d # CHR ''.'' # rest)
                  @ ''e+'' @ nat_toString (n - 1)))"

fun js_toString :: "jsnum \<Rightarrow> string" where
  "js_toString NaN = ''NaN''"
| "js_toString PosInf = ''Infinity''"
| "js_toString NegInf = ''-Infinity''"
| "js_toString (Num i) =
     (if i < 0 then CHR ''-'' # pos_toString (nat (- i)) else pos_toString (nat i))"

definition bool_toString :: "bool \<Rightarrow> string" where
  "bool_toString b = (if b then ''true'' else ''false'')"

subsection \<open>\<^verbatim>\<open>parseInt(s, 10)\<close>\<close>

text \<open>
  ECMAScript \<^verbatim>\<open>parseInt\<close> with radix 10: leading white space is skipped, one sign is
  read, then the longest run of decimal digits; no digit gives \<open>NaN\<close>, and whatever
  follows the digits is ignored. The result is the number for the integer read, so it
  is rounded beyond 53 bits and infinite from about 309 digits. (The language lets an
  implementation read digits after the 20th as zeros; here every digit counts.)
\<close>

definition isWhiteSpace :: "char \<Rightarrow> bool" where
  "isWhiteSpace c = ((of_char c :: nat) \<in> {9, 10, 11, 12, 13, 32, 160})"

definition isDigit :: "char \<Rightarrow> bool" where
  "isDigit c = (48 \<le> (of_char c :: nat) \<and> (of_char c :: nat) \<le> 57)"

definition digit_val :: "char \<Rightarrow> nat" where
  "digit_val c = of_char c - 48"

definition digits_val :: "string \<Rightarrow> nat" where
  "digits_val z = foldl (\<lambda>acc c. 10 * acc + digit_val c) 0 z"

definition parseInt :: "string \<Rightarrow> jsnum" where
  "parseInt s =
     (let t = dropWhile isWhiteSpace s;
          neg = (case t of [] \<Rightarrow> False | c # _ \<Rightarrow> c = CHR ''-'');
          u = (case t of [] \<Rightarrow> []
               | c # r \<Rightarrow> if c = CHR ''+'' \<or> c = CHR ''-'' then r else t);
          z = takeWhile isDigit u
      in if z = [] then NaN
         else toDouble ((if neg then - 1 else 1) * int (digits_val z)))"

subsection \<open>\<^verbatim>\<open>toLowerCase\<close>\<close>

text \<open>Lower case of the letters A to Z; \<^verbatim>\<open>toLocaleLowerCase\<close> is taken to be the same.\<close>

definition toLowerChar :: "char \<Rightarrow> char" where
  "toLowerChar c =
     (if 65 \<le> (of_char c :: nat) \<and> (of_char c :: nat) \<le> 90
      then char_of ((of_char c :: nat) + 32) else c)"

definition toLowerCase :: "string \<Rightarrow> string" where
  "toLowerCase s = map toLowerChar s"

section \<open>The collaborators of the component\<close>

text \<open>
  The cache service (\<^verbatim>\<open>@dagonmetric/ng-cache\<close>) is a key/value store. The component
  reads each key through \<^verbatim>\<open>getItem<T>\<close> at one type \<open>T\<close>, and the store is modelled
  with one field per key at that type; \<open>None\<close> is an absent entry. The keys
  \<^verbatim>\<open>appUsedCount-v<version>\<close> are one field, a map from the version.
\<close>

record store =
  k_appUsedCount :: "string \<Rightarrow> string option"
  k_appUsed :: "string option"
  k_socialSharingSheetShownIn :: "jsnum option"
  k_socialSharingYesButtonPressed :: "bool option"
  k_socialSharingNoButtonPressed :: "bool option"
  k_isDarkMode :: "string option"

definition emptyStore :: store where
  "emptyStore =
     \<lparr> k_appUsedCount = (\<lambda>_. None), k_appUsed = None,
       k_socialSharingSheetShownIn = None,
       k_socialSharingYesButtonPressed = None,
       k_socialSharingNoButtonPressed = None,
       k_isDarkMode = None \<rparr>"

text \<open>What the platform answers: \<^verbatim>\<open>isPlatformBrowser(platformId)\<close>, whether
  \<^verbatim>\<open>window.matchMedia('(prefers-color-scheme)').media\<close> differs from \<^verbatim>\<open>'not all'\<close>, and
  whether the media query object has \<^verbatim>\<open>addEventListener\<close>.\<close>

record platform =
  isPlatformBrowser :: bool
  prefersColorSchemeSupported :: bool
  mediaQueryHasAddEventListener :: bool

typedecl sponsor

text \<open>The configuration values read by \<^verbatim>\<open>updateConfigValues\<close>. \<open>cfg_sponsorsParsed\<close>
  is what \<^verbatim>\<open>JSON.parse\<close> gives on the \<^verbatim>\<open>sponsors\<close> string: \<open>None\<close> when it throws.\<close>

record config =
  cfg_colorMode :: "string option"
  cfg_sponsorSectionVisible :: "string option"
  cfg_sponsors :: "string option"
  cfg_sponsorsParsed :: "sponsor list option"

text \<open>The calls the component makes on the router and on the bottom sheet.\<close>

datatype effect = RouterNavigate string | BottomSheetOpen

text \<open>The data of a completed navigation, and \<^verbatim>\<open>navigator\<close> at that moment:
  \<open>None\<close> when \<^verbatim>\<open>typeof navigator !== 'object'\<close>, else \<^verbatim>\<open>navigator.onLine\<close>.\<close>

record routeData =
  pagePath :: string
  pageType :: "string option"

type_synonym navigator = "bool option"

section \<open>The component\<close>

text \<open>
  The fields of \<^verbatim>\<open>AppComponent\<close> (a private field \<^verbatim>\<open>_x\<close> is \<open>x\<close>; \<^verbatim>\<open>_isDarkMode\<close> is
  \<open>isDarkMode_field\<close>), the cache service it holds, the calls it has made
  (\<open>effects\<close>, oldest first), and which subscriptions it has registered.
\<close>

record component =
  isBrowser :: bool
  isHomePage :: bool
  sponsors :: "sponsor list"
  curVerAppUsedCount :: jsnum
  isAppUsedBefore :: bool
  isFirstNavigation :: bool
  pageClass :: "string option"
  themeClass :: "string option"
  componentClass :: "string option"
  aboutPageNavigated :: bool
  hideSponsorSection :: bool
  colorMode :: "string option"
  isDarkMode_field :: "bool option"
  cacheService :: store
  effects :: "effect list"
  overlayDarkClass :: bool
  configSubscribed :: bool
  darkModeListener :: bool


definition aboutSectionVisible :: "component \<Rightarrow> bool" where
  "aboutSectionVisible c =
     (if isHomePage c \<and> \<not> isAppUsedBefore c \<and> \<not> aboutPageNavigated c then True else False)"

definition sponsorSectionVisible :: "component \<Rightarrow> bool" where
  "sponsorSectionVisible c =
     (if hideSponsorSection c \<or> sponsors c = [] \<or> \<not> isBrowser c \<or> \<not> isHomePage c \<or>
         aboutSectionVisible c
      then False else True)"

definition updateComponentClass :: "component \<Rightarrow> component" where
  "updateComponentClass c =
     (let cc0 = [];
          cc1 = (if truthy_str (pageClass c) then cc0 @ the (pageClass c) else cc0);
          cc2 = (if truthy_str (themeClass c)
                 then (if cc1 \<noteq> [] then cc1 @ '' '' else cc1) @ the (themeClass c)
                 else cc1)
      in c\<lparr>componentClass := Some cc2\<rparr>)"

definition toggleDarkTheme :: "bool \<Rightarrow> component \<Rightarrow> component" where
  "toggleDarkTheme isDark c =
     c\<lparr>themeClass := Some (if isDark then ''dark'' else ''''), overlayDarkClass := isDark\<rparr>"

definition setDarkMode :: "bool \<Rightarrow> component \<Rightarrow> component" where
  "setDarkMode v c =
     (let c1 = c\<lparr>isDarkMode_field := Some v\<rparr>;
          c2 = c1\<lparr>cacheService :=
                 (cacheService c1)\<lparr>k_isDarkMode := Some (toLowerCase (bool_toString v))\<rparr>\<rparr>;
          c3 = toggleDarkTheme v c2
      in updateComponentClass c3)"

definition detectDarkThemeChange :: "platform \<Rightarrow> bool \<Rightarrow> bool \<Rightarrow> bool \<Rightarrow> component \<Rightarrow> component" where
  "detectDarkThemeChange plat mediaMatches defaultValue forceDefaultValue c =
     (if prefersColorSchemeSupported plat then
        (let c1 = (if forceDefaultValue then setDarkMode defaultValue c
                   else setDarkMode mediaMatches c)
         in if mediaQueryHasAddEventListener plat then c1\<lparr>darkModeListener := True\<rparr> else c1)
      else setDarkMode defaultValue c)"

definition detectDarkTheme :: "platform \<Rightarrow> bool \<Rightarrow> component \<Rightarrow> component" where
  "detectDarkTheme plat mediaMatches c =
     (let defaultValue =
            (if truthy_str (colorMode c) \<and> toLowerCase (the (colorMode c)) = ''dark'' then True
             else if truthy_str (colorMode c) \<and> toLowerCase (the (colorMode c)) = ''light''
             then False
             else (case k_isDarkMode (cacheService c) of
                     None \<Rightarrow> True
                   | Some cacheDarkModeStr \<Rightarrow> cacheDarkModeStr = ''true''))
      in detectDarkThemeChange plat mediaMatches defaultValue True c)"

definition getCurVerAppUsedCount :: "string \<Rightarrow> component \<Rightarrow> jsnum" where
  "getCurVerAppUsedCount appVersion c =
     (let appUsedCountStr = k_appUsedCount (cacheService c) appVersion
      in if truthy_str appUsedCountStr then parseInt (the appUsedCountStr) else Num 0)"

text \<open>The list \<^verbatim>\<open>oldVersions\<close> of \<^verbatim>\<open>checkAppUsedBefore\<close> and its loop over it, which
  returns at the first version with a truthy stored count.\<close>

definition oldVersions :: "string list" where
  "oldVersions =
     [''3.3.3'', ''3.3.2'', ''3.3.1'', ''3.3.0'', ''3.2.0'', ''3.1.0'', ''3.0.0'',
      ''2.0.7'', ''2.0.6'', ''2.0.5'', ''2.0.4'', ''2.0.3'', ''2.0.2'', ''2.0.1'',
      ''2.0.0'', ''2.0.0-preview1'', ''1.1.5'', ''1.1.4'', ''1.1.3'', ''1.1.2'',
      ''1.1.1'', ''1.0.1'', ''1.0.0'']"

fun scanVersions :: "store \<Rightarrow> string list \<Rightarrow> bool" where
  "scanVersions st [] = False"
| "scanVersions st (ver # vers) =
     (if truthy_str (k_appUsedCount st ver) then True else scanVersions st vers)"

definition checkAppUsedBefore :: "component \<Rightarrow> bool" where
  "checkAppUsedBefore c =
     (if \<not> isBrowser c then False
      else if js_gt (curVerAppUsedCount c) (Num 0) then True
      else if k_appUsed (cacheService c) = Some ''true'' then True
      else scanVersions (cacheService c) oldVersions)"

definition increaseAppUsedCount :: "string \<Rightarrow> component \<Rightarrow> component" where
  "increaseAppUsedCount appVersion c =
     (if \<not> isBrowser c then c
      else
        (let st1 = (cacheService c)\<lparr>k_appUsedCount :=
                      (k_appUsedCount (cacheService c))
                        (appVersion \<mapsto> js_toString (js_add (curVerAppUsedCount c) (Num 1)))\<rparr>;
             st2 = (if \<not> isAppUsedBefore c then st1\<lparr>k_appUsed := Some ''true''\<rparr> else st1)
         in c\<lparr>cacheService := st2\<rparr>))"

definition shouldShowSocialSharingSheet :: "navigator \<Rightarrow> component \<Rightarrow> bool" where
  "shouldShowSocialSharingSheet nav c =
     (if js_lt (curVerAppUsedCount c) (Num 5) \<or> nav = None \<or> \<not> the nav then False
      else if truthy_bool (k_socialSharingYesButtonPressed (cacheService c)) then False
      else if truthy_bool (k_socialSharingNoButtonPressed (cacheService c)) then False
      else if truthy_num (k_socialSharingSheetShownIn (cacheService c)) \<and>
              js_lt (curVerAppUsedCount c)
                (js_add (the (k_socialSharingSheetShownIn (cacheService c))) (Num 7))
      then False
      else True)"

definition updateConfigValues :: "config \<Rightarrow> component \<Rightarrow> component" where
  "updateConfigValues cfg c =
     (let c1 = c\<lparr>colorMode := cfg_colorMode cfg\<rparr>;
          c2 = (if truthy_str (cfg_sponsorSectionVisible cfg) \<and>
                   toLowerCase (the (cfg_sponsorSectionVisible cfg)) = ''false''
                then c1\<lparr>hideSponsorSection := True\<rparr> else c1)
      in if truthy_str (cfg_sponsors cfg)
         then (case cfg_sponsorsParsed cfg of
                 Some sps \<Rightarrow> c2\<lparr>sponsors := sps\<rparr>
               | None \<Rightarrow> c2\<lparr>sponsors := []\<rparr>)
         else c2)"

subsection \<open>The navigation handler\<close>

text \<open>
  The subscriber of the router's \<^verbatim>\<open>NavigationEnd\<close> events, in two parts: what it
  records of the route (\<open>routeUpdate\<close>), and its last conditional. \<^verbatim>\<open>updateMeta\<close> and
  the logger only call the title, meta, link and log services and leave the component as
  it is; they are not modelled. The handler also returns which branch of the conditional
  ran.
\<close>

datatype branch = Redirect | SharePrompt | Default

definition redirectCond :: "component \<Rightarrow> bool" where
  "redirectCond c =
     (isBrowser c \<and> isHomePage c \<and> isFirstNavigation c \<and>
      js_strict_eq (curVerAppUsedCount c) (Num 0) \<and> isAppUsedBefore c)"

definition sharePromptCond :: "navigator \<Rightarrow> component \<Rightarrow> bool" where
  "sharePromptCond nav c =
     (isBrowser c \<and> isHomePage c \<and> isFirstNavigation c \<and> shouldShowSocialSharingSheet nav c)"

definition routeUpdate :: "routeData \<Rightarrow> component \<Rightarrow> component" where
  "routeUpdate rd c =
     (let c1 = c\<lparr>isHomePage := (if pageType rd = Some ''home-page'' then True else False)\<rparr>;
          c2 = updateComponentClass (c1\<lparr>pageClass := pageType rd\<rparr>)
      in if \<not> aboutPageNavigated c2 \<and> isBrowser c2 \<and> pageType rd = Some ''about-page''
         then c2\<lparr>aboutPageNavigated := True\<rparr> else c2)"

definition onNavigationEnd ::
  "string \<Rightarrow> routeData \<Rightarrow> navigator \<Rightarrow> component \<Rightarrow> branch option \<times> component" where
  "onNavigationEnd appVersion rd nav c =
     (let c3 = routeUpdate rd c
      in if redirectCond c3 then
           (let c4 = c3\<lparr>isFirstNavigation := False\<rparr>;
                c5 = increaseAppUsedCount appVersion c4;
                c6 = c5\<lparr>hideSponsorSection := True\<rparr>
            in (Some Redirect, c6\<lparr>effects := effects c6 @ [RouterNavigate ''/about'']\<rparr>))
         else if sharePromptCond nav c3 then
           (let c4 = c3\<lparr>isFirstNavigation := False\<rparr>;
                c5 = increaseAppUsedCount appVersion c4;
                c6 = c5\<lparr>hideSponsorSection := True\<rparr>;
                c7 = c6\<lparr>cacheService :=
                       (cacheService c6)\<lparr>k_socialSharingSheetShownIn :=
                          Some (curVerAppUsedCount c6)\<rparr>\<rparr>
            in (Some SharePrompt, c7\<lparr>effects := effects c7 @ [BottomSheetOpen]\<rparr>))
         else if isFirstNavigation c3 then
           (let c4 = c3\<lparr>isFirstNavigation := False\<rparr>
            in (Some Default, increaseAppUsedCount appVersion c4))
         else (None, c3))"

subsection \<open>The constructor\<close>

text \<open>The fields' initial values, then the constructor's body. \<open>appVersion\<close> is
  \<^verbatim>\<open>appSettings.appVersion\<close>, and \<open>mediaMatches\<close> is what the media query
  \<^verbatim>\<open>(prefers-color-scheme: dark)\<close> answers. The service worker's update check and the
  breakpoint observer do not touch the fields and are left out.\<close>

definition initialComponent :: "platform \<Rightarrow> store \<Rightarrow> component" where
  "initialComponent plat st =
     \<lparr> isBrowser = isPlatformBrowser plat, isHomePage = True, sponsors = [],
       curVerAppUsedCount = Num 0, isAppUsedBefore = False, isFirstNavigation = True,
       pageClass = None, themeClass = None, componentClass = None,
       aboutPageNavigated = False, hideSponsorSection = False, colorMode = None,
       isDarkMode_field = None, cacheService = st, effects = [],
       overlayDarkClass = False, configSubscribed = False, darkModeListener = False \<rparr>"

definition AppComponent :: "string \<Rightarrow> platform \<Rightarrow> bool \<Rightarrow> config \<Rightarrow> store \<Rightarrow> component" where
  "AppComponent appVersion plat mediaMatches cfg st =
     (let c0 = initialComponent plat st
      in if isBrowser c0 then
           (let c1 = c0\<lparr>curVerAppUsedCount := getCurVerAppUsedCount appVersion c0\<rparr>;
                c2 = c1\<lparr>isAppUsedBefore := checkAppUsedBefore c1\<rparr>;
                c3 = updateConfigValues cfg c2;
                c4 = detectDarkTheme plat mediaMatches c3
            in c4\<lparr>configSubscribed := True\<rparr>)
         else c0)"

subsection \<open>Events of a session\<close>

text \<open>Modelled from the spec: the share outcome recorder (the social sharing sheet
  component is not among the sources). \<^verbatim>\<open>recordResponse(accepted)\<close> sets exactly one
  of the two response flags to true and leaves the other as stored.\<close>

definition recordResponse :: "bool \<Rightarrow> store \<Rightarrow> store" where
  "recordResponse accepted st =
     (if accepted then st\<lparr>k_socialSharingYesButtonPressed := Some True\<rparr>
      else st\<lparr>k_socialSharingNoButtonPressed := Some True\<rparr>)"

text \<open>
  What can happen to a constructed component: a completed navigation, a change of the
  configuration (delivered when the constructor subscribed), a change of the system's
  colour scheme (delivered when the listener was added), the \<^verbatim>\<open>isDarkMode\<close> setter, and a
  response to the share prompt.
\<close>

datatype event =
    NavigationEnd routeData navigator
  | ConfigValueChanges config
  | ColorSchemeChange bool
  | SetIsDarkMode bool
  | ShareResponse bool

fun isNavigationEnd :: "event \<Rightarrow> bool" where
  "isNavigationEnd (NavigationEnd _ _) = True"
| "isNavigationEnd _ = False"

fun dispatch :: "string \<Rightarrow> event \<Rightarrow> component \<Rightarrow> branch option \<times> component" where
  "dispatch appVersion (NavigationEnd rd nav) c = onNavigationEnd appVersion rd nav c"
| "dispatch appVersion (ConfigValueChanges cfg) c =
     (None, if configSubscribed c then updateConfigValues cfg c else c)"
| "dispatch appVersion (ColorSchemeChange m) c =
     (None, if darkModeListener c then setDarkMode m c else c)"
| "dispatch appVersion (SetIsDarkMode v) c = (None, setDarkMode v c)"
| "dispatch appVersion (ShareResponse a) c =
     (None, c\<lparr>cacheService := recordResponse a (cacheService c)\<rparr>)"

fun run :: "string \<Rightarrow> event list \<Rightarrow> component \<Rightarrow> branch option list \<times> component" where
  "run appVersion [] c = ([], c)"
| "run appVersion (e # es) c =
     (let (b, c1) = dispatch appVersion e c;
          (bs, c2) = run appVersion es c1
      in (b # bs, c2))"




section \<open>Concrete inputs\<close>

text \<open>Inputs at which the theorems below are evaluated: a version string, a browser
  with the colour-scheme media query, a server, an empty configuration, and a component as
  the constructor leaves it, with a given count and used-before flag.\<close>

definition ex_appVersion :: string where
  "ex_appVersion = ''3.4.0''"

definition ex_platform :: platform where
  "ex_platform =
     \<lparr> isPlatformBrowser = True, prefersColorSchemeSupported = True,
       mediaQueryHasAddEventListener = True \<rparr>"


definition ex_config :: config where
  "ex_config =
     \<lparr> cfg_colorMode = None, cfg_sponsorSectionVisible = None, cfg_sponsors = None,
       cfg_sponsorsParsed = None \<rparr>"

definition ex_component :: "jsnum \<Rightarrow> bool \<Rightarrow> store \<Rightarrow> component" where
  "ex_component n used st =
     (initialComponent ex_platform st)\<lparr>curVerAppUsedCount := n, isAppUsedBefore := used\<rparr>"

definition ex_store_count :: "string \<Rightarrow> store" where
  "ex_store_count s = emptyStore\<lparr>k_appUsedCount := [ex_appVersion \<mapsto> s]\<rparr>"



definition ex_home :: routeData where
  "ex_home = \<lparr> pagePath = ''/'', pageType = Some ''home-page'' \<rparr>"

definition ex_about :: routeData where
  "ex_about = \<lparr> pagePath = ''/about'', pageType = Some ''about-page'' \<rparr>"

definition ex_store_old :: store where
  "ex_store_old = emptyStore\<lparr>k_appUsedCount := [''2.0.5'' \<mapsto> ''3'']\<rparr>"



section \<open>Notions used in the statements\<close>

text \<open>The decimal numeral of an integer, and the numbers that are doubles (as every
  number the component computes is).\<close>

definition decimal :: "int \<Rightarrow> string" where
  "decimal i = (if i < 0 then CHR ''-'' # nat_toString (nat (- i)) else nat_toString (nat i))"


section \<open>The classifier as a function of the store\<close>

text \<open>What \<^verbatim>\<open>getCurVerAppUsedCount\<close> and \<^verbatim>\<open>checkAppUsedBefore\<close> compute in a browser,
  written over the store alone, and the agreement of the component's two read-only
  fields with the store that holds until the first navigation. They serve the proofs
  about sessions.\<close>

definition storedCount :: "string \<Rightarrow> store \<Rightarrow> jsnum" where
  "storedCount v st =
     (if truthy_str (k_appUsedCount st v) then parseInt (the (k_appUsedCount st v)) else Num 0)"

definition usedInStore :: "string \<Rightarrow> store \<Rightarrow> bool" where
  "usedInStore v st =
     (js_gt (storedCount v st) (Num 0) \<or> k_appUsed st = Some ''true'' \<or>
      scanVersions st oldVersions)"


declare nat_toString.simps [simp del]
declare bitlen.simps [simp del]
declare shortestFrom.simps(2) [simp del]

section \<open>Rounding\<close>

lemma bitlen_0 [simp]: "bitlen 0 = 0"
  by (simp add: bitlen.simps)

lemma bitlen_pos: "0 < n \<Longrightarrow> bitlen n = Suc (bitlen (n div 2))"
  by (subst bitlen.simps) simp

lemma bitlen_bounds: "0 < n \<Longrightarrow> 2 ^ (bitlen n - 1) \<le> n \<and> n < 2 ^ bitlen n"
proof (induction n rule: bitlen.induct)
  case (1 n)
  show ?case
  proof (cases "n div 2 = 0")
    case True
    with "1.prems" have "n = 1" by presburger
    then show ?thesis by (simp add: bitlen_pos)
  next
    case False
    then have pos: "0 < n div 2" by simp
    from "1.prems" have ne: "n \<noteq> 0" by simp
    from "1.IH" [OF ne pos]
    have lo: "2 ^ (bitlen (n div 2) - 1) \<le> n div 2" and hi: "n div 2 < 2 ^ bitlen (n div 2)"
      by simp_all
    from pos have b1: "0 < bitlen (n div 2)" by (simp add: bitlen_pos)
    then have e: "2 ^ bitlen (n div 2) = 2 * (2::nat) ^ (bitlen (n div 2) - 1)"
      by (cases "bitlen (n div 2)") simp_all
    have "2 ^ bitlen (n div 2) \<le> 2 * (n div 2)"
      using lo e by simp
    also have "\<dots> \<le> n" by presburger
    finally have A: "2 ^ bitlen (n div 2) \<le> n" .
    have "n < 2 * (n div 2) + 2" by presburger
    also have "\<dots> \<le> 2 * 2 ^ bitlen (n div 2)" using hi by simp
    finally have B: "n < 2 * 2 ^ bitlen (n div 2)" .
    from A B "1.prems" show ?thesis by (simp add: bitlen_pos)
  qed
qed

lemma bitlen_unique:
  assumes "2 ^ b \<le> n" and "n < 2 ^ Suc b"
  shows "bitlen n = Suc b"
proof -
  from assms(1) have pos: "0 < n"
    by (metis less_le_trans zero_less_numeral zero_less_power)
  from bitlen_bounds [OF pos]
  have lo: "2 ^ (bitlen n - 1) \<le> n" and hi: "n < 2 ^ bitlen n" by simp_all
  from pos have bp: "0 < bitlen n" by (simp add: bitlen_pos)
  from assms(1) hi have "(2::nat) ^ b < 2 ^ bitlen n" by (rule le_less_trans)
  then have 1: "b < bitlen n" by (simp add: power_strict_increasing_iff)
  from lo assms(2) have "(2::nat) ^ (bitlen n - 1) < 2 ^ Suc b" by (rule le_less_trans)
  then have 2: "bitlen n - 1 < Suc b" by (simp only: power_strict_increasing_iff one_less_numeral_iff semiring_norm)
  from 1 2 bp show ?thesis by arith
qed


lemma mantissa_pos: "0 < mantissa"
  by (simp add: mantissa_def)

lemma div_pow_bounds:
  fixes n :: nat
  assumes "2 ^ (k + e) \<le> n" and "n < 2 ^ (Suc k + e)"
  shows "2 ^ k \<le> n div 2 ^ e" and "n div 2 ^ e < 2 ^ Suc k"
proof -
  have "(2::nat) ^ k = (2 ^ k * 2 ^ e) div 2 ^ e" by simp
  also have "\<dots> \<le> n div 2 ^ e"
    using assms(1) by (intro div_le_mono) (simp add: power_add)
  finally show "2 ^ k \<le> n div 2 ^ e" .
  from assms(2) have "n < 2 ^ Suc k * 2 ^ e" by (simp add: power_add)
  then show "n div 2 ^ e < 2 ^ Suc k"
    by (simp add: less_mult_imp_div_less)
qed

text \<open>The shape of a number with more bits than the mantissa: its exponent and its
  quotient of mantissa bits.\<close>

lemma big_shape:
  assumes big: "2 ^ mantissa \<le> n"
  shows "bitlen n = mantissa + (bitlen n - mantissa)" and "1 \<le> bitlen n - mantissa"
    and "2 ^ (mantissa - 1) \<le> n div 2 ^ (bitlen n - mantissa)"
    and "n div 2 ^ (bitlen n - mantissa) < 2 ^ mantissa"
proof -
  from big have pos: "0 < n"
    by (metis less_le_trans zero_less_numeral zero_less_power)
  from bitlen_bounds [OF pos]
  have lo: "2 ^ (bitlen n - 1) \<le> n" and hi: "n < 2 ^ bitlen n" by simp_all
  from big hi have "(2::nat) ^ mantissa < 2 ^ bitlen n" by (rule le_less_trans)
  then have b: "mantissa < bitlen n"
    by (simp only: power_strict_increasing_iff one_less_numeral_iff semiring_norm)
  then show "bitlen n = mantissa + (bitlen n - mantissa)" and "1 \<le> bitlen n - mantissa"
    by simp_all
  from b mantissa_pos have e1: "bitlen n - 1 = (mantissa - 1) + (bitlen n - mantissa)"
    and e2: "bitlen n = Suc (mantissa - 1) + (bitlen n - mantissa)" by simp_all
  from lo have l: "(2::nat) ^ ((mantissa - 1) + (bitlen n - mantissa)) \<le> n"
    by (simp only: e1 [symmetric])
  from hi have h: "n < (2::nat) ^ (Suc (mantissa - 1) + (bitlen n - mantissa))"
    by (simp only: e2 [symmetric])
  from div_pow_bounds [OF l h] mantissa_pos
  show "2 ^ (mantissa - 1) \<le> n div 2 ^ (bitlen n - mantissa)"
    and "n div 2 ^ (bitlen n - mantissa) < 2 ^ mantissa"
    by simp_all
qed

lemma round_nat_small: "n < 2 ^ mantissa \<Longrightarrow> round_nat n = n"
  by (simp add: round_nat_def)

lemma round_nat_big:
  assumes "2 ^ mantissa \<le> n"
  shows "round_nat n =
    (if 2 ^ (bitlen n - mantissa - 1) < n mod 2 ^ (bitlen n - mantissa) \<or>
        (n mod 2 ^ (bitlen n - mantissa) = 2 ^ (bitlen n - mantissa - 1) \<and>
         odd (n div 2 ^ (bitlen n - mantissa)))
     then n div 2 ^ (bitlen n - mantissa) + 1 else n div 2 ^ (bitlen n - mantissa))
    * 2 ^ (bitlen n - mantissa)"
  using assms by (simp add: round_nat_def Let_def)

text \<open>A product of a number of mantissa bits (or \<open>2 ^ mantissa\<close> itself) and a power
  of two is a double.\<close>

lemma round_nat_product:
  assumes e: "1 \<le> e" and lo: "2 ^ (mantissa - 1) \<le> q" and hi: "q \<le> 2 ^ mantissa"
  shows "round_nat (q * 2 ^ e) = q * 2 ^ e"
proof (cases "q = 2 ^ mantissa")
  case True
  let ?m = "q * 2 ^ e"
  have m: "?m = 2 ^ (mantissa + e)" by (simp add: True power_add)
  have bl: "bitlen ?m = Suc (mantissa + e)"
    by (rule bitlen_unique) (simp_all add: m)
  have big: "2 ^ mantissa \<le> ?m" unfolding m by (intro power_increasing) simp_all
  have ee: "bitlen ?m - mantissa = Suc e" using bl by simp
  have m2: "?m = 2 ^ (mantissa - 1) * 2 ^ Suc e"
    using mantissa_pos unfolding m by (simp add: power_add [symmetric] del: power_Suc)
  have d: "?m div 2 ^ Suc e = 2 ^ (mantissa - 1)" unfolding m2 by simp
  have r: "?m mod 2 ^ Suc e = 0" unfolding m2 by simp
  have "round_nat ?m = 2 ^ (mantissa - 1) * 2 ^ Suc e"
    unfolding round_nat_big [OF big] ee d r by simp
  then show ?thesis by (simp only: m2 [symmetric])
next
  case False
  with hi have q: "q < 2 ^ mantissa" by simp
  let ?m = "q * 2 ^ e"
  have l: "2 ^ ((mantissa - 1) + e) \<le> ?m" using lo by (simp add: power_add)
  have "?m < 2 ^ mantissa * 2 ^ e" using q by simp
  then have h: "?m < 2 ^ Suc ((mantissa - 1) + e)"
    using mantissa_pos by (simp add: power_add [symmetric] del: power_Suc)
  have bl: "bitlen ?m = Suc ((mantissa - 1) + e)" using l h by (rule bitlen_unique)
  have "(2::nat) ^ mantissa \<le> 2 ^ ((mantissa - 1) + e)"
    using e by (intro power_increasing) simp_all
  with l have big: "2 ^ mantissa \<le> ?m" by (rule le_trans [rotated])
  have ee: "bitlen ?m - mantissa = e" using bl mantissa_pos by simp
  show ?thesis
    unfolding round_nat_big [OF big] ee using e by simp
qed

lemma round_nat_cases:
  assumes big: "2 ^ mantissa \<le> n"
  shows "round_nat n = n div 2 ^ (bitlen n - mantissa) * 2 ^ (bitlen n - mantissa) \<or>
    round_nat n = (n div 2 ^ (bitlen n - mantissa) + 1) * 2 ^ (bitlen n - mantissa)"
  unfolding round_nat_big [OF big] by simp




lemma round_nat_0 [simp]: "round_nat 0 = 0"
  by (simp add: round_nat_def)

lemma exponent_room: "Suc mantissa < maxExponent"
  by (simp add: mantissa_def maxExponent_def)


lemma pow_pred: "0 < k \<Longrightarrow> (2::nat) ^ (k - 1) * 2 = 2 ^ k"
  by (cases k) simp_all


lemma pow_mantissa_finite: "(2::nat) ^ mantissa < 2 ^ maxExponent"
  using exponent_room by (intro power_strict_increasing) simp_all

lemma toDouble_cases:
  "toDouble i =
     (if round_nat (nat \<bar>i\<bar>) < 2 ^ maxExponent
      then Num (if i < 0 then - int (round_nat (nat \<bar>i\<bar>)) else int (round_nat (nat \<bar>i\<bar>)))
      else if i < 0 then NegInf else PosInf)"
  by (simp add: toDouble_def Let_def)

lemma toDouble_small: "\<bar>i\<bar> < 2 ^ mantissa \<Longrightarrow> toDouble i = Num i"
proof -
  assume a: "\<bar>i\<bar> < 2 ^ mantissa"
  then have n: "nat \<bar>i\<bar> < 2 ^ mantissa"
    by (simp add: nat_less_iff)
  then have r: "round_nat (nat \<bar>i\<bar>) = nat \<bar>i\<bar>"
    by (rule round_nat_small)
  from n pow_mantissa_finite have "nat \<bar>i\<bar> < 2 ^ maxExponent"
    by (rule less_trans)
  then show ?thesis
    unfolding toDouble_cases r by simp
qed

lemma toDouble_0 [simp]: "toDouble 0 = Num 0"
  by (simp add: toDouble_cases)






section \<open>Numerals\<close>

lemma digit_val_digit_char: "d < 10 \<Longrightarrow> digit_val (digit_char d) = d"
  by (simp add: digit_val_def digit_char_def)

lemma isDigit_digit_char: "d < 10 \<Longrightarrow> isDigit (digit_char d)"
  by (simp add: isDigit_def digit_char_def)

lemma nat_toString_digits: "c \<in> set (nat_toString n) \<Longrightarrow> isDigit c"
proof (induction n rule: nat_toString.induct)
  case (1 n)
  show ?case
  proof (cases "n < 10")
    case True
    with "1.prems" show ?thesis
      by (simp add: nat_toString.simps [of n] isDigit_digit_char)
  next
    case False
    with "1.prems" "1.IH" show ?thesis
      by (auto simp add: nat_toString.simps [of n] isDigit_digit_char)
  qed
qed

lemma nat_toString_nonempty: "nat_toString n \<noteq> []"
  by (subst nat_toString.simps) simp

lemma digits_val_snoc: "digits_val (z @ [c]) = 10 * digits_val z + digit_val c"
  by (simp add: digits_val_def)

lemma digits_val_nat_toString: "digits_val (nat_toString n) = n"
proof (induction n rule: nat_toString.induct)
  case (1 n)
  show ?case
  proof (cases "n < 10")
    case True
    then show ?thesis
      by (simp add: nat_toString.simps [of n] digits_val_def digit_val_digit_char)
  next
    case False
    with "1.IH" show ?thesis
      by (simp add: nat_toString.simps [of n] digits_val_snoc digit_val_digit_char)
  qed
qed


lemma isDigit_not_space: "isDigit c \<Longrightarrow> \<not> isWhiteSpace c"
  by (auto simp add: isDigit_def isWhiteSpace_def)

lemma isDigit_not_sign: "isDigit c \<Longrightarrow> c \<noteq> CHR ''+'' \<and> c \<noteq> CHR ''-''"
  by (auto simp add: isDigit_def)

text \<open>What \<^verbatim>\<open>parseInt\<close> reads from a string that starts with digits \<open>z\<close>, after a minus
  sign or not, and goes on with something else than a digit, or ends.\<close>

lemma parseInt_prefix:
  assumes "z \<noteq> []" and "\<forall>c\<in>set z. isDigit c" and "rest = [] \<or> \<not> isDigit (hd rest)"
  shows "parseInt (z @ rest) = toDouble (int (digits_val z))"
    and "parseInt (CHR ''-'' # z @ rest) = toDouble (- int (digits_val z))"
proof -
  from assms(1,2) obtain c r
    where z: "z = c # r" and c: "isDigit c"
    by (cases z) auto
  have tw: "takeWhile isDigit (z @ rest) = z"
  proof (cases rest)
    case Nil
    with assms(2) show ?thesis by (simp add: takeWhile_eq_all_conv)
  next
    case (Cons x xs)
    with assms(3) have "\<not> isDigit x" by simp
    with assms(2) Cons show ?thesis by (simp add: takeWhile_append2)
  qed
  from c have nc: "\<not> isWhiteSpace c" "c \<noteq> CHR ''+''" "c \<noteq> CHR ''-''"
    by (simp_all add: isDigit_not_space isDigit_not_sign)
  have dw: "dropWhile isWhiteSpace (z @ rest) = z @ rest"
    using nc(1) by (simp add: z)
  have u: "(case z @ rest of [] \<Rightarrow> []
      | c # r \<Rightarrow> if c = CHR ''+'' \<or> c = CHR ''-'' then r else z @ rest) = z @ rest"
    using nc by (simp add: z)
  have ng: "(case z @ rest of [] \<Rightarrow> False | c # x \<Rightarrow> c = CHR ''-'') = False"
    using nc by (simp add: z)
  show "parseInt (z @ rest) = toDouble (int (digits_val z))"
    unfolding parseInt_def dw Let_def u ng tw using assms(1) by simp
  have ws: "\<not> isWhiteSpace CHR ''-''"
    by (simp add: isWhiteSpace_def)
  show "parseInt (CHR ''-'' # z @ rest) = toDouble (- int (digits_val z))"
    unfolding parseInt_def Let_def using ws assms(1) by (simp add: tw)
qed

lemma parseInt_digits:
  assumes "z \<noteq> []" and "\<forall>c\<in>set z. isDigit c"
  shows "parseInt z = toDouble (int (digits_val z))"
    and "parseInt (CHR ''-'' # z) = toDouble (- int (digits_val z))"
  using parseInt_prefix [OF assms, of "[]"] by simp_all

lemma parseInt_nat_toString:
  "parseInt (nat_toString n) = toDouble (int n)"
  "parseInt (CHR ''-'' # nat_toString n) = toDouble (- int n)"
  using parseInt_digits [of "nat_toString n"]
  by (simp_all add: nat_toString_nonempty nat_toString_digits digits_val_nat_toString)

lemma parseInt_decimal: "parseInt (decimal i) = toDouble i"
  by (simp add: decimal_def parseInt_nat_toString)


lemma parseInt_no_digit:
  assumes "\<forall>c\<in>set s. \<not> isDigit c"
  shows "parseInt s = NaN"
proof -
  define t where "t = dropWhile isWhiteSpace s"
  have t: "\<forall>c\<in>set t. \<not> isDigit c"
    using assms set_dropWhileD unfolding t_def by fastforce
  have "takeWhile isDigit (case t of [] \<Rightarrow> []
          | c # r \<Rightarrow> if c = CHR ''+'' \<or> c = CHR ''-'' then r else t) = []"
    using t by (cases t) (auto simp add: takeWhile_eq_Nil_iff)
  then show ?thesis
    by (simp add: parseInt_def t_def [symmetric])
qed


section \<open>Printing a number and reading it back\<close>









lemma round_nat_lower: "2 ^ k \<le> n \<Longrightarrow> 2 ^ k \<le> round_nat n"
proof (cases "n < 2 ^ mantissa")
  case True
  then show "2 ^ k \<le> n \<Longrightarrow> 2 ^ k \<le> round_nat n" by (simp add: round_nat_small)
next
  case False
  assume k: "2 ^ k \<le> n"
  from False have big: "2 ^ mantissa \<le> n" by simp
  let ?e = "bitlen n - mantissa"
  from big have pos: "0 < n"
    by (metis less_le_trans zero_less_numeral zero_less_power)
  from bitlen_bounds [OF pos] have hi: "n < 2 ^ bitlen n" by simp
  from k hi have "(2::nat) ^ k < 2 ^ bitlen n" by (rule le_less_trans)
  then have "k < bitlen n"
    by (simp only: power_strict_increasing_iff one_less_numeral_iff semiring_norm)
  with big_shape(1) [OF big] mantissa_pos have "k \<le> (mantissa - 1) + ?e" by simp
  then have "(2::nat) ^ k \<le> 2 ^ ((mantissa - 1) + ?e)"
    by (intro power_increasing) simp_all
  also have "\<dots> = 2 ^ (mantissa - 1) * 2 ^ ?e" by (simp add: power_add)
  also have "\<dots> \<le> n div 2 ^ ?e * 2 ^ ?e"
    using big_shape(3) [OF big] by (rule mult_le_mono1)
  also have "\<dots> \<le> round_nat n"
    using round_nat_cases [OF big] by auto
  finally show ?thesis .
qed


lemma toDouble_small_nat: "n < 2 ^ mantissa \<Longrightarrow> toDouble (int n) = Num (int n)"
proof -
  assume n: "n < 2 ^ mantissa"
  then have r: "round_nat n = n" by (rule round_nat_small)
  from n pow_mantissa_finite have "n < 2 ^ maxExponent" by (rule less_trans)
  then show ?thesis by (simp add: toDouble_cases r)
qed

lemma toDouble_above:
  assumes "x < 2 ^ mantissa" and "x < h"
  shows "toDouble (int h) \<noteq> Num (int x)"
proof (cases "h < 2 ^ mantissa")
  case True
  then have "toDouble (int h) = Num (int h)"
    by (rule toDouble_small_nat)
  with assms(2) show ?thesis by simp
next
  case False
  then have "2 ^ mantissa \<le> round_nat h" by (intro round_nat_lower) simp
  with assms(1) have "x < round_nat h" by simp
  then show ?thesis by (simp add: toDouble_cases)
qed

text \<open>Below \<open>2 ^ mantissa\<close> a number is printed with all its digits.\<close>

lemma shortestFrom_small:
  assumes "x < 2 ^ mantissa"
  shows "shortestFrom x j = x"
proof (induction j)
  case 0
  show ?case by simp
next
  case (Suc j)
  let ?p = "10 ^ Suc j :: nat"
  let ?lo = "x div ?p * ?p"
  have hi: "toDouble (int (?lo + ?p)) \<noteq> Num (int x)"
  proof (rule toDouble_above [OF assms])
    have "?lo + x mod ?p = x" by (rule div_mult_mod_eq)
    moreover have "x mod ?p < ?p" by (simp del: power_Suc)
    ultimately show "x < ?lo + ?p" by linarith
  qed
  have lo: "toDouble (int ?lo) = Num (int x) \<Longrightarrow> ?lo = x"
  proof -
    assume a: "toDouble (int ?lo) = Num (int x)"
    have "?lo \<le> x" by (simp del: power_Suc)
    from this assms have "?lo < 2 ^ mantissa" by (rule le_less_trans)
    then have "toDouble (int ?lo) = Num (int ?lo)"
      by (rule toDouble_small_nat)
    with a have "int ?lo = int x" by (simp only: jsnum.inject)
    then show ?thesis by (simp only: int_int_eq)
  qed
  from hi lo Suc show ?case
    by (auto simp add: shortestFrom.simps(2) Let_def simp del: power_Suc)
qed

lemma nat_toString_length: "n < 10 ^ Suc k \<Longrightarrow> length (nat_toString n) \<le> Suc k"
proof (induction k arbitrary: n)
  case 0
  then show ?case by (simp add: nat_toString.simps [of n])
next
  case (Suc k)
  show ?case
  proof (cases "n < 10")
    case True
    then show ?thesis by (simp add: nat_toString.simps [of n])
  next
    case False
    from Suc.prems have "n div 10 < 10 ^ Suc k" by (simp add: less_mult_imp_div_less)
    then have "length (nat_toString (n div 10)) \<le> Suc k" by (rule Suc.IH)
    with False show ?thesis by (simp add: nat_toString.simps [of n])
  qed
qed

lemma pos_toString_small: "x < 2 ^ mantissa \<Longrightarrow> pos_toString x = nat_toString x"
proof -
  assume a: "x < 2 ^ mantissa"
  have "(2::nat) ^ mantissa \<le> 10 ^ Suc 20" by (simp add: mantissa_def)
  with a have "x < 10 ^ Suc 20" by (rule less_le_trans)
  then have "length (nat_toString x) \<le> 21" using nat_toString_length [of x 20] by simp
  then show ?thesis
    by (simp add: pos_toString_def Let_def shortestFrom_small [OF a])
qed

lemma js_toString_small: "\<bar>i\<bar> < 2 ^ mantissa \<Longrightarrow> js_toString (Num i) = decimal i"
proof -
  assume "\<bar>i\<bar> < 2 ^ mantissa"
  then have "nat \<bar>i\<bar> < 2 ^ mantissa" by (simp add: nat_less_iff)
  then have "pos_toString (nat \<bar>i\<bar>) = nat_toString (nat \<bar>i\<bar>)" by (rule pos_toString_small)
  then show ?thesis by (cases "i < 0") (simp_all add: decimal_def)
qed

lemma nat_toString_1: "nat_toString (Suc 0) = ''1''"
  by code_simp


lemma js_toString_1: "js_toString (Num 1) = ''1''"
  using js_toString_small [of 1] by (simp add: decimal_def nat_toString_1 mantissa_def)

lemma parseInt_1: "parseInt ''1'' = Num 1"
  using parseInt_nat_toString(1) [of 1] toDouble_small [of 1]
  by (simp add: nat_toString_1 mantissa_def)




lemma toDouble_safe: "\<bar>i\<bar> \<le> 2 ^ mantissa \<Longrightarrow> toDouble i = Num i"
proof (cases "\<bar>i\<bar> < 2 ^ mantissa")
  case True
  then show ?thesis by (rule toDouble_small)
next
  case False
  assume "\<bar>i\<bar> \<le> 2 ^ mantissa"
  with False have a: "nat \<bar>i\<bar> = 2 ^ mantissa"
    by (simp add: nat_eq_iff)
  have "round_nat (2 ^ (mantissa - 1) * 2 ^ 1) = 2 ^ (mantissa - 1) * 2 ^ 1"
    by (rule round_nat_product) simp_all
  moreover have "(2::nat) ^ (mantissa - 1) * 2 ^ 1 = 2 ^ mantissa"
    using pow_pred [OF mantissa_pos] by simp
  ultimately have r: "round_nat (nat \<bar>i\<bar>) = nat \<bar>i\<bar>" by (simp only: a)
  have "nat \<bar>i\<bar> < 2 ^ maxExponent"
    unfolding a by (rule pow_mantissa_finite)
  then show ?thesis
    unfolding toDouble_cases r by simp
qed





section \<open>Truthiness and the scan of old versions\<close>

lemma truthy_str_iff: "truthy_str x = (\<exists>s. x = Some s \<and> s \<noteq> [])"
  by (cases x) simp_all

lemma scanVersions_iff:
  "scanVersions st vers = (\<exists>ver\<in>set vers. truthy_str (k_appUsedCount st ver))"
  by (induction vers) auto

section \<open>What each method leaves unchanged\<close>

lemma updateComponentClass_frame [simp]:
  "isBrowser (updateComponentClass c) = isBrowser c"
  "isHomePage (updateComponentClass c) = isHomePage c"
  "sponsors (updateComponentClass c) = sponsors c"
  "curVerAppUsedCount (updateComponentClass c) = curVerAppUsedCount c"
  "isAppUsedBefore (updateComponentClass c) = isAppUsedBefore c"
  "isFirstNavigation (updateComponentClass c) = isFirstNavigation c"
  "aboutPageNavigated (updateComponentClass c) = aboutPageNavigated c"
  "hideSponsorSection (updateComponentClass c) = hideSponsorSection c"
  "colorMode (updateComponentClass c) = colorMode c"
  "isDarkMode_field (updateComponentClass c) = isDarkMode_field c"
  "cacheService (updateComponentClass c) = cacheService c"
  "effects (updateComponentClass c) = effects c"
  "configSubscribed (updateComponentClass c) = configSubscribed c"
  "darkModeListener (updateComponentClass c) = darkModeListener c"
  by (simp_all add: updateComponentClass_def Let_def)

lemma setDarkMode_frame [simp]:
  "isBrowser (setDarkMode v c) = isBrowser c"
  "isHomePage (setDarkMode v c) = isHomePage c"
  "sponsors (setDarkMode v c) = sponsors c"
  "curVerAppUsedCount (setDarkMode v c) = curVerAppUsedCount c"
  "isAppUsedBefore (setDarkMode v c) = isAppUsedBefore c"
  "isFirstNavigation (setDarkMode v c) = isFirstNavigation c"
  "aboutPageNavigated (setDarkMode v c) = aboutPageNavigated c"
  "hideSponsorSection (setDarkMode v c) = hideSponsorSection c"
  "colorMode (setDarkMode v c) = colorMode c"
  "effects (setDarkMode v c) = effects c"
  "configSubscribed (setDarkMode v c) = configSubscribed c"
  "darkModeListener (setDarkMode v c) = darkModeListener c"
  "isDarkMode_field (setDarkMode v c) = Some v"
  "cacheService (setDarkMode v c) = (cacheService c)\<lparr>k_isDarkMode := Some (bool_toString v)\<rparr>"
  by (simp_all add: setDarkMode_def toggleDarkTheme_def Let_def bool_toString_def
      toLowerCase_def toLowerChar_def)

lemma updateConfigValues_frame [simp]:
  "isBrowser (updateConfigValues cfg c) = isBrowser c"
  "isHomePage (updateConfigValues cfg c) = isHomePage c"
  "curVerAppUsedCount (updateConfigValues cfg c) = curVerAppUsedCount c"
  "isAppUsedBefore (updateConfigValues cfg c) = isAppUsedBefore c"
  "isFirstNavigation (updateConfigValues cfg c) = isFirstNavigation c"
  "aboutPageNavigated (updateConfigValues cfg c) = aboutPageNavigated c"
  "isDarkMode_field (updateConfigValues cfg c) = isDarkMode_field c"
  "cacheService (updateConfigValues cfg c) = cacheService c"
  "effects (updateConfigValues cfg c) = effects c"
  "configSubscribed (updateConfigValues cfg c) = configSubscribed c"
  "darkModeListener (updateConfigValues cfg c) = darkModeListener c"
  "colorMode (updateConfigValues cfg c) = cfg_colorMode cfg"
  by (simp_all add: updateConfigValues_def Let_def split: option.split)

lemma updateConfigValues_hide:
  "hideSponsorSection c \<Longrightarrow> hideSponsorSection (updateConfigValues cfg c)"
  by (simp add: updateConfigValues_def Let_def split: option.split)

lemma routeUpdate_frame [simp]:
  "isBrowser (routeUpdate rd c) = isBrowser c"
  "sponsors (routeUpdate rd c) = sponsors c"
  "curVerAppUsedCount (routeUpdate rd c) = curVerAppUsedCount c"
  "isAppUsedBefore (routeUpdate rd c) = isAppUsedBefore c"
  "isFirstNavigation (routeUpdate rd c) = isFirstNavigation c"
  "hideSponsorSection (routeUpdate rd c) = hideSponsorSection c"
  "colorMode (routeUpdate rd c) = colorMode c"
  "isDarkMode_field (routeUpdate rd c) = isDarkMode_field c"
  "cacheService (routeUpdate rd c) = cacheService c"
  "effects (routeUpdate rd c) = effects c"
  "configSubscribed (routeUpdate rd c) = configSubscribed c"
  "darkModeListener (routeUpdate rd c) = darkModeListener c"
  "isHomePage (routeUpdate rd c) = (pageType rd = Some ''home-page'')"
  by (simp_all add: routeUpdate_def Let_def)

lemma increaseAppUsedCount_frame [simp]:
  "isBrowser (increaseAppUsedCount v c) = isBrowser c"
  "isHomePage (increaseAppUsedCount v c) = isHomePage c"
  "sponsors (increaseAppUsedCount v c) = sponsors c"
  "curVerAppUsedCount (increaseAppUsedCount v c) = curVerAppUsedCount c"
  "isAppUsedBefore (increaseAppUsedCount v c) = isAppUsedBefore c"
  "isFirstNavigation (increaseAppUsedCount v c) = isFirstNavigation c"
  "aboutPageNavigated (increaseAppUsedCount v c) = aboutPageNavigated c"
  "hideSponsorSection (increaseAppUsedCount v c) = hideSponsorSection c"
  "colorMode (increaseAppUsedCount v c) = colorMode c"
  "isDarkMode_field (increaseAppUsedCount v c) = isDarkMode_field c"
  "effects (increaseAppUsedCount v c) = effects c"
  "configSubscribed (increaseAppUsedCount v c) = configSubscribed c"
  "darkModeListener (increaseAppUsedCount v c) = darkModeListener c"
  by (simp_all add: increaseAppUsedCount_def Let_def)

section \<open>The share eligibility predicate\<close>

text \<open>C3: whenever the current-version usage count is less than 5, the share eligibility
  predicate is false, whatever the online signal, the response flags and the stored
  prompt-shown marker are.\<close>

theorem shouldShow_false_below_5:
  "js_lt (curVerAppUsedCount c) (Num 5) \<Longrightarrow> shouldShowSocialSharingSheet nav c = False"
  by (simp add: shouldShowSocialSharingSheet_def)

theorem shouldShow_false_below_5_witness:
  "js_lt (curVerAppUsedCount (ex_component (Num 4) True emptyStore)) (Num 5) \<and>
   shouldShowSocialSharingSheet (Some True) (ex_component (Num 4) True emptyStore) = False"
  using shouldShow_false_below_5 [of "ex_component (Num 4) True emptyStore" "Some True"]
  by (simp add: ex_component_def)




text \<open>C5: whenever the stored share-accepted flag or the stored share-declined flag is
  true, the share eligibility predicate is false, for every usage count, online signal
  and prompt-shown marker.\<close>

theorem shouldShow_false_after_response:
  "k_socialSharingYesButtonPressed (cacheService c) = Some True \<or>
   k_socialSharingNoButtonPressed (cacheService c) = Some True \<Longrightarrow>
   shouldShowSocialSharingSheet nav c = False"
  by (auto simp add: shouldShowSocialSharingSheet_def)

theorem shouldShow_false_after_response_witness:
  "k_socialSharingNoButtonPressed
     (cacheService (ex_component (Num 40) True (recordResponse False emptyStore))) = Some True \<and>
   shouldShowSocialSharingSheet (Some True)
     (ex_component (Num 40) True (recordResponse False emptyStore)) = False"
  using shouldShow_false_after_response
    [of "ex_component (Num 40) True (recordResponse False emptyStore)" "Some True"]
  by (simp add: ex_component_def initialComponent_def recordResponse_def)

text \<open>C10: the condition of the redirect branch and the condition of the share-prompt
  branch never hold together. The first needs the count to be 0; the second needs the
  share eligibility predicate, which needs the count not to be below 5, so a count \<open>n\<close>
  with \<open>5 \<le> n\<close>.\<close>

theorem redirect_share_exclusive:
  "(redirectCond c \<longrightarrow> curVerAppUsedCount c = Num 0) \<and>
   (sharePromptCond nav c \<longrightarrow> \<not> js_lt (curVerAppUsedCount c) (Num 5)) \<and>
   (sharePromptCond nav c \<and> curVerAppUsedCount c = Num n \<longrightarrow> 5 \<le> n) \<and>
   \<not> (redirectCond c \<and> sharePromptCond nav c)"
  by (cases "curVerAppUsedCount c")
    (auto simp add: redirectCond_def sharePromptCond_def shouldShowSocialSharingSheet_def)

theorem redirect_share_exclusive_witness:
  "redirectCond (ex_component (Num 0) True emptyStore) \<and>
   \<not> sharePromptCond (Some True) (ex_component (Num 0) True emptyStore) \<and>
   sharePromptCond (Some True) (ex_component (Num 5) True emptyStore) \<and>
   \<not> redirectCond (ex_component (Num 5) True emptyStore)"
  using redirect_share_exclusive [of "ex_component (Num 0) True emptyStore" "Some True" 0]
    redirect_share_exclusive [of "ex_component (Num 5) True emptyStore" "Some True" 5]
  by (simp add: ex_component_def initialComponent_def ex_platform_def emptyStore_def
      redirectCond_def sharePromptCond_def shouldShowSocialSharingSheet_def)

section \<open>The navigation interceptor\<close>

lemma onNavigationEnd_not_first:
  "\<not> isFirstNavigation c \<Longrightarrow>
     fst (onNavigationEnd v rd nav c) = None \<and>
     \<not> isFirstNavigation (snd (onNavigationEnd v rd nav c))"
  by (simp add: onNavigationEnd_def redirectCond_def sharePromptCond_def Let_def)

lemma onNavigationEnd_first:
  "isFirstNavigation c \<Longrightarrow>
     (\<exists>b. fst (onNavigationEnd v rd nav c) = Some b) \<and>
     \<not> isFirstNavigation (snd (onNavigationEnd v rd nav c))"
  by (simp add: onNavigationEnd_def Let_def)

lemma dispatch_other:
  "\<not> isNavigationEnd e \<Longrightarrow>
     fst (dispatch v e c) = None \<and>
     isFirstNavigation (snd (dispatch v e c)) = isFirstNavigation c"
  by (cases e) simp_all

lemma run_Cons:
  "run v (e # es) c =
     (fst (dispatch v e c) # fst (run v es (snd (dispatch v e c))),
      snd (run v es (snd (dispatch v e c))))"
  by (simp add: case_prod_beta)

lemma run_append:
  "run v (xs @ ys) c =
     (fst (run v xs c) @ fst (run v ys (snd (run v xs c))),
      snd (run v ys (snd (run v xs c))))"
  by (induction xs arbitrary: c) (simp_all add: case_prod_beta)

lemma run_not_first:
  "\<not> isFirstNavigation c \<Longrightarrow>
     fst (run v es c) = replicate (length es) None \<and> \<not> isFirstNavigation (snd (run v es c))"
proof (induction es arbitrary: c)
  case Nil
  then show ?case by simp
next
  case (Cons e es)
  have d: "fst (dispatch v e c) = None \<and> \<not> isFirstNavigation (snd (dispatch v e c))"
  proof (cases "isNavigationEnd e")
    case True
    then obtain rd nav where "e = NavigationEnd rd nav" by (cases e) auto
    with Cons.prems show ?thesis by (simp add: onNavigationEnd_not_first)
  next
    case False
    with Cons.prems show ?thesis by (simp add: dispatch_other)
  qed
  with Cons.IH [of "snd (dispatch v e c)"] show ?case
    by (simp add: run_Cons del: run.simps)
qed

lemma run_others:
  "\<forall>e\<in>set es. \<not> isNavigationEnd e \<Longrightarrow>
     fst (run v es c) = replicate (length es) None \<and>
     isFirstNavigation (snd (run v es c)) = isFirstNavigation c"
proof (induction es arbitrary: c)
  case Nil
  then show ?case by simp
next
  case (Cons e es)
  then have "fst (dispatch v e c) = None \<and>
     isFirstNavigation (snd (dispatch v e c)) = isFirstNavigation c"
    by (simp add: dispatch_other)
  with Cons.IH [of "snd (dispatch v e c)"] Cons.prems show ?case
    by (simp add: run_Cons del: run.simps)
qed

lemma run_fired_le:
  "length (filter (\<lambda>b. b \<noteq> None) (fst (run v es c))) \<le> (if isFirstNavigation c then 1 else 0)"
proof (induction es arbitrary: c)
  case Nil
  then show ?case by simp
next
  case (Cons e es)
  show ?case
  proof (cases "isFirstNavigation c")
    case False
    then show ?thesis using run_not_first [of c v "e # es"] by simp
  next
    case first: True
    show ?thesis
    proof (cases "isNavigationEnd e")
      case True
      then obtain rd nav where e: "e = NavigationEnd rd nav" by (cases e) auto
      from first have "\<not> isFirstNavigation (snd (dispatch v e c))"
        by (simp add: e onNavigationEnd_first)
      then have "fst (run v es (snd (dispatch v e c))) = replicate (length es) None"
        by (simp add: run_not_first)
      with first show ?thesis by (simp add: run_Cons del: run.simps)
    next
      case False
      then have "fst (dispatch v e c) = None" by (simp add: dispatch_other)
      with Cons.IH [of "snd (dispatch v e c)"] first show ?thesis
        by (simp add: run_Cons del: run.simps split: if_splits)
    qed
  qed
qed

lemma AppComponent_first: "isFirstNavigation (AppComponent v plat mm cfg st)"
  by (simp add: AppComponent_def initialComponent_def detectDarkTheme_def
      detectDarkThemeChange_def Let_def)

text \<open>C1: in a session (the component as constructed, then any events), at most one
  navigation fires a branch of the interceptor. The first completed navigation fires
  exactly one branch, whatever other events came before it, and every later event fires
  none: after the first navigation the first-navigation flag is false, and with the flag
  false neither guarded branch is enabled and the handler fires nothing.\<close>

theorem navigation_branch_once:
  "length (filter (\<lambda>b. b \<noteq> None)
      (fst (run v es (AppComponent v plat mm cfg st)))) \<le> 1 \<and>
   ((\<forall>e\<in>set pre. \<not> isNavigationEnd e) \<longrightarrow>
      (\<exists>b. fst (run v (pre @ NavigationEnd rd nav # post) (AppComponent v plat mm cfg st)) =
         replicate (length pre) None @ Some b # replicate (length post) None) \<and>
      \<not> isFirstNavigation
          (snd (run v (pre @ [NavigationEnd rd nav]) (AppComponent v plat mm cfg st)))) \<and>
   (\<not> isFirstNavigation c \<longrightarrow>
      \<not> redirectCond c \<and> \<not> sharePromptCond nav c \<and>
      fst (onNavigationEnd v rd nav c) = None \<and>
      \<not> isFirstNavigation (snd (onNavigationEnd v rd nav c)))"
proof (intro conjI impI)
  let ?c0 = "AppComponent v plat mm cfg st"
  show "length (filter (\<lambda>b. b \<noteq> None) (fst (run v es ?c0))) \<le> 1"
    using run_fired_le [of v es ?c0] by (simp add: AppComponent_first)
next
  let ?c0 = "AppComponent v plat mm cfg st"
  let ?c1 = "snd (run v pre ?c0)"
  assume pre: "\<forall>e\<in>set pre. \<not> isNavigationEnd e"
  then have p: "fst (run v pre ?c0) = replicate (length pre) None" "isFirstNavigation ?c1"
    using run_others [of pre v ?c0] by (simp_all add: AppComponent_first)
  from p(2) obtain b where b: "fst (onNavigationEnd v rd nav ?c1) = Some b"
    and nf: "\<not> isFirstNavigation (snd (onNavigationEnd v rd nav ?c1))"
    using onNavigationEnd_first [of ?c1 v rd nav] by blast
  from nf have "fst (run v post (snd (onNavigationEnd v rd nav ?c1))) =
      replicate (length post) None"
    by (simp add: run_not_first)
  with p(1) b show "\<exists>b. fst (run v (pre @ NavigationEnd rd nav # post) ?c0) =
      replicate (length pre) None @ Some b # replicate (length post) None"
    by (simp add: run_append run_Cons del: run.simps)
  from nf show "\<not> isFirstNavigation (snd (run v (pre @ [NavigationEnd rd nav]) ?c0))"
    by (simp add: run_append run_Cons del: run.simps(2))
next
  assume "\<not> isFirstNavigation c"
  then show "\<not> redirectCond c" by (simp add: redirectCond_def)
next
  assume "\<not> isFirstNavigation c"
  then show "\<not> sharePromptCond nav c" by (simp add: sharePromptCond_def)
next
  assume "\<not> isFirstNavigation c"
  then show "fst (onNavigationEnd v rd nav c) = None"
    by (simp add: onNavigationEnd_not_first)
next
  assume "\<not> isFirstNavigation c"
  then show "\<not> isFirstNavigation (snd (onNavigationEnd v rd nav c))"
    by (simp add: onNavigationEnd_not_first)
qed

lemma ex_not_navigation: "\<not> isNavigationEnd (ConfigValueChanges ex_config)"
  by simp

theorem navigation_branch_once_witness:
  "\<not> isNavigationEnd (ConfigValueChanges ex_config) \<and>
   (\<exists>b. fst (run ex_appVersion
          ([ConfigValueChanges ex_config] @ NavigationEnd ex_home (Some True) #
             [NavigationEnd ex_about (Some True), NavigationEnd ex_home (Some True)])
          (AppComponent ex_appVersion ex_platform False ex_config (ex_store_count ''5''))) =
        [None, Some b, None, None])"
  using navigation_branch_once
    [of ex_appVersion "[]" ex_platform False ex_config "ex_store_count ''5''"
        "[ConfigValueChanges ex_config]" ex_home "Some True"
        "[NavigationEnd ex_about (Some True), NavigationEnd ex_home (Some True)]"
        "initialComponent ex_platform emptyStore"]
  by (simp add: numeral_2_eq_2 del: run.simps)

section \<open>The usage classifier\<close>

text \<open>C6: the used-before classifier is false outside a browser; in a browser it is
  true when the current-version count is positive, else true when the stored
  \<^verbatim>\<open>appUsed\<close> entry is the string \<^verbatim>\<open>'true'\<close>, else true exactly when some version of
  the fixed list of old versions has a non-empty stored count entry. In particular it is
  false on the empty store with count 0.\<close>

theorem checkAppUsedBefore_cases:
  "checkAppUsedBefore c =
     (if \<not> isBrowser c then False
      else if js_gt (curVerAppUsedCount c) (Num 0) then True
      else if k_appUsed (cacheService c) = Some ''true'' then True
      else (\<exists>ver\<in>set oldVersions.
              \<exists>s. k_appUsedCount (cacheService c) ver = Some s \<and> s \<noteq> [])) \<and>
   (cacheService c = emptyStore \<and> curVerAppUsedCount c = Num 0 \<longrightarrow>
      \<not> checkAppUsedBefore c)"
  by (simp add: checkAppUsedBefore_def scanVersions_iff truthy_str_iff emptyStore_def)

theorem checkAppUsedBefore_cases_witness:
  "checkAppUsedBefore
     (ex_component (Num 0) False
        (emptyStore\<lparr>k_appUsedCount := [''2.0.5'' \<mapsto> ''3'']\<rparr>)) \<and>
   \<not> checkAppUsedBefore (ex_component (Num 0) False emptyStore)"
  using
    checkAppUsedBefore_cases
      [of "ex_component (Num 0) False (emptyStore\<lparr>k_appUsedCount := [''2.0.5'' \<mapsto> ''3'']\<rparr>)"]
    checkAppUsedBefore_cases [of "ex_component (Num 0) False emptyStore"]
  by (simp add: ex_component_def initialComponent_def ex_platform_def emptyStore_def
      oldVersions_def)

text \<open>C7, as the claim states it, fails: a stored count that does not parse is not read
  as 0. With \<^verbatim>\<open>'abc'\<close> stored for the current version, \<^verbatim>\<open>getCurVerAppUsedCount\<close>
  returns \<open>NaN\<close>, and the constructor keeps it as the count.\<close>

theorem getCurVerAppUsedCount_unparsable_counterexample:
  "getCurVerAppUsedCount ex_appVersion
     (initialComponent ex_platform (ex_store_count ''abc'')) = NaN \<and>
   curVerAppUsedCount
     (AppComponent ex_appVersion ex_platform False ex_config (ex_store_count ''abc'')) \<noteq> Num 0"
  by (simp add: getCurVerAppUsedCount_def AppComponent_def initialComponent_def
      ex_platform_def ex_config_def ex_store_count_def emptyStore_def parseInt_def
      isWhiteSpace_def isDigit_def
      updateConfigValues_def detectDarkTheme_def detectDarkThemeChange_def setDarkMode_def
      toggleDarkTheme_def updateComponentClass_def Let_def)

text \<open>C7, amended: reading the current-version usage count gives 0 when the entry is
  absent or the empty string. A non-empty entry is given to \<^verbatim>\<open>parseInt\<close> and the result
  is returned unchecked: a decimal numeral is read as the double nearest to the integer
  it denotes, which is that integer when its magnitude is at most \<open>2^53\<close>, and a
  non-empty string without any decimal digit is read as \<open>NaN\<close>, not as 0.\<close>

theorem getCurVerAppUsedCount_cases:
  "(k_appUsedCount (cacheService c) v = None \<longrightarrow> getCurVerAppUsedCount v c = Num 0) \<and>
   (k_appUsedCount (cacheService c) v = Some [] \<longrightarrow> getCurVerAppUsedCount v c = Num 0) \<and>
   (k_appUsedCount (cacheService c) v = Some (decimal i) \<longrightarrow>
      getCurVerAppUsedCount v c = toDouble i) \<and>
   (k_appUsedCount (cacheService c) v = Some (decimal i) \<and> \<bar>i\<bar> \<le> 2 ^ 53 \<longrightarrow>
      getCurVerAppUsedCount v c = Num i) \<and>
   (k_appUsedCount (cacheService c) v = Some s \<and> s \<noteq> [] \<longrightarrow>
      getCurVerAppUsedCount v c = parseInt s) \<and>
   (k_appUsedCount (cacheService c) v = Some s \<and> s \<noteq> [] \<and> (\<forall>ch\<in>set s. \<not> isDigit ch) \<longrightarrow>
      getCurVerAppUsedCount v c = NaN)"
proof -
  have ne: "decimal i \<noteq> []"
    by (simp add: decimal_def nat_toString_nonempty)
  have safe: "\<bar>i\<bar> \<le> 2 ^ 53 \<Longrightarrow> toDouble i = Num i"
    using toDouble_safe [of i] by (simp add: mantissa_def)
  show ?thesis
    by (simp add: getCurVerAppUsedCount_def ne parseInt_decimal safe parseInt_no_digit)
qed

lemma decimal_1: "decimal 1 = ''1''"
  by (simp add: decimal_def nat_toString_1)

theorem getCurVerAppUsedCount_cases_witness:
  "getCurVerAppUsedCount ex_appVersion (initialComponent ex_platform emptyStore) = Num 0 \<and>
   getCurVerAppUsedCount ex_appVersion
     (initialComponent ex_platform (ex_store_count ''1'')) = Num 1 \<and>
   getCurVerAppUsedCount ex_appVersion
     (initialComponent ex_platform (ex_store_count ''n/a'')) = NaN"
proof -
  have "k_appUsedCount (cacheService (initialComponent ex_platform emptyStore)) ex_appVersion
      = None"
    by (simp add: initialComponent_def emptyStore_def)
  then have absent:
    "getCurVerAppUsedCount ex_appVersion (initialComponent ex_platform emptyStore) = Num 0"
    using getCurVerAppUsedCount_cases
      [of "initialComponent ex_platform emptyStore" ex_appVersion 0 "[]"]
    by blast
  have "k_appUsedCount (cacheService (initialComponent ex_platform (ex_store_count ''1'')))
      ex_appVersion = Some (decimal 1) \<and> \<bar>1::int\<bar> \<le> 2 ^ 53"
    by (simp add: initialComponent_def ex_store_count_def decimal_1)
  then have numeral: "getCurVerAppUsedCount ex_appVersion
      (initialComponent ex_platform (ex_store_count ''1'')) = Num 1"
    using getCurVerAppUsedCount_cases
      [of "initialComponent ex_platform (ex_store_count ''1'')" ex_appVersion 1 "[]"]
    by blast
  have "k_appUsedCount (cacheService (initialComponent ex_platform (ex_store_count ''n/a'')))
      ex_appVersion = Some ''n/a'' \<and> ''n/a'' \<noteq> [] \<and> (\<forall>ch\<in>set ''n/a''. \<not> isDigit ch)"
    by (simp add: initialComponent_def ex_store_count_def isDigit_def)
  then have no_digit: "getCurVerAppUsedCount ex_appVersion
      (initialComponent ex_platform (ex_store_count ''n/a'')) = NaN"
    using getCurVerAppUsedCount_cases
      [of "initialComponent ex_platform (ex_store_count ''n/a'')" ex_appVersion 0 "''n/a''"]
    by blast
  from absent numeral no_digit show ?thesis
    by blast
qed

section \<open>The constructor\<close>

lemma detectDarkTheme_frame [simp]:
  "isBrowser (detectDarkTheme plat mm c) = isBrowser c"
  "isHomePage (detectDarkTheme plat mm c) = isHomePage c"
  "sponsors (detectDarkTheme plat mm c) = sponsors c"
  "curVerAppUsedCount (detectDarkTheme plat mm c) = curVerAppUsedCount c"
  "isAppUsedBefore (detectDarkTheme plat mm c) = isAppUsedBefore c"
  "isFirstNavigation (detectDarkTheme plat mm c) = isFirstNavigation c"
  "aboutPageNavigated (detectDarkTheme plat mm c) = aboutPageNavigated c"
  "hideSponsorSection (detectDarkTheme plat mm c) = hideSponsorSection c"
  "colorMode (detectDarkTheme plat mm c) = colorMode c"
  "effects (detectDarkTheme plat mm c) = effects c"
  "configSubscribed (detectDarkTheme plat mm c) = configSubscribed c"
  "k_appUsedCount (cacheService (detectDarkTheme plat mm c)) = k_appUsedCount (cacheService c)"
  "k_appUsed (cacheService (detectDarkTheme plat mm c)) = k_appUsed (cacheService c)"
  by (simp_all add: detectDarkTheme_def detectDarkThemeChange_def Let_def)

lemma AppComponent_fields:
  "isBrowser (AppComponent v plat mm cfg st) = isPlatformBrowser plat"
  "k_appUsedCount (cacheService (AppComponent v plat mm cfg st)) = k_appUsedCount st"
  "k_appUsed (cacheService (AppComponent v plat mm cfg st)) = k_appUsed st"
  "curVerAppUsedCount (AppComponent v plat mm cfg st) =
     (if isPlatformBrowser plat then getCurVerAppUsedCount v (initialComponent plat st)
      else Num 0)"
  "effects (AppComponent v plat mm cfg st) = []"
  "isAppUsedBefore (AppComponent v plat mm cfg st) =
     (if isPlatformBrowser plat
      then checkAppUsedBefore
        ((initialComponent plat st)
           \<lparr>curVerAppUsedCount := getCurVerAppUsedCount v (initialComponent plat st)\<rparr>)
      else False)"
  by (simp_all add: AppComponent_def Let_def, simp_all add: initialComponent_def)

lemma getCur_storedCount: "getCurVerAppUsedCount v c = storedCount v (cacheService c)"
  by (simp add: getCurVerAppUsedCount_def storedCount_def Let_def)

lemma check_usedInStore:
  "curVerAppUsedCount c = storedCount v (cacheService c) \<Longrightarrow>
     checkAppUsedBefore c = (isBrowser c \<and> usedInStore v (cacheService c))"
  by (auto simp add: checkAppUsedBefore_def usedInStore_def)




lemma initialComponent_fields [simp]:
  "isBrowser (initialComponent plat st) = isPlatformBrowser plat"
  "cacheService (initialComponent plat st) = st"
  "isFirstNavigation (initialComponent plat st) = True"
  "curVerAppUsedCount (initialComponent plat st) = Num 0"
  "isAppUsedBefore (initialComponent plat st) = False"
  "hideSponsorSection (initialComponent plat st) = False"
  "effects (initialComponent plat st) = []"
  by (simp_all add: initialComponent_def)

lemma AppComponent_used:
  "isAppUsedBefore (AppComponent v plat mm cfg st) = (isPlatformBrowser plat \<and> usedInStore v st)"
proof (cases "isPlatformBrowser plat")
  case True
  let ?c1 = "(initialComponent plat st)
           \<lparr>curVerAppUsedCount := getCurVerAppUsedCount v (initialComponent plat st)\<rparr>"
  have "curVerAppUsedCount ?c1 = storedCount v (cacheService ?c1)"
    by (simp add: getCur_storedCount)
  then have "checkAppUsedBefore ?c1 = (isBrowser ?c1 \<and> usedInStore v (cacheService ?c1))"
    by (rule check_usedInStore)
  also have "\<dots> = (isPlatformBrowser plat \<and> usedInStore v st)"
    by simp
  finally have "checkAppUsedBefore ?c1 = (isPlatformBrowser plat \<and> usedInStore v st)" .
  moreover have "isAppUsedBefore (AppComponent v plat mm cfg st) = checkAppUsedBefore ?c1"
    using True by (simp only: AppComponent_fields(6) if_True)
  ultimately show ?thesis
    by (simp only:)
next
  case False
  then show ?thesis by (simp add: AppComponent_fields)
qed

lemma AppComponent_count:
  "isPlatformBrowser plat \<Longrightarrow>
     curVerAppUsedCount (AppComponent v plat mm cfg st) = storedCount v st"
  by (simp add: AppComponent_fields getCur_storedCount)



lemma ex_old_used: "usedInStore ex_appVersion ex_store_old"
  by (simp add: usedInStore_def ex_store_old_def oldVersions_def)

section \<open>The first-use redirect\<close>

lemma increaseAppUsedCount_store:
  "isBrowser c \<Longrightarrow>
     k_appUsedCount (cacheService (increaseAppUsedCount v c)) =
       (k_appUsedCount (cacheService c))(v \<mapsto> js_toString (js_add (curVerAppUsedCount c) (Num 1)))"
  "isBrowser c \<Longrightarrow>
     k_appUsed (cacheService (increaseAppUsedCount v c)) =
       (if isAppUsedBefore c then k_appUsed (cacheService c) else Some ''true'')"
  "\<not> isBrowser c \<Longrightarrow> increaseAppUsedCount v c = c"
  by (simp_all add: increaseAppUsedCount_def Let_def)

lemma sponsorSection_hidden: "hideSponsorSection c \<Longrightarrow> \<not> sponsorSectionVisible c"
  by (simp add: sponsorSectionVisible_def)

lemma onNavigationEnd_hide:
  "hideSponsorSection c \<Longrightarrow> hideSponsorSection (snd (onNavigationEnd v rd nav c))"
  by (simp add: onNavigationEnd_def Let_def)

lemma dispatch_hide:
  "hideSponsorSection c \<Longrightarrow> hideSponsorSection (snd (dispatch v e c))"
  by (cases e) (simp_all add: onNavigationEnd_hide updateConfigValues_hide)

lemma run_hide:
  "hideSponsorSection c \<Longrightarrow> hideSponsorSection (snd (run v es c))"
proof (induction es arbitrary: c)
  case Nil
  then show ?case by simp
next
  case (Cons e es)
  from Cons.prems have "hideSponsorSection (snd (dispatch v e c))"
    by (rule dispatch_hide)
  then have "hideSponsorSection (snd (run v es (snd (dispatch v e c))))"
    by (rule Cons.IH)
  then show ?case
    by (simp add: run_Cons del: run.simps)
qed

lemma redirect_taken:
  assumes "isBrowser c" and "isFirstNavigation c" and "curVerAppUsedCount c = Num 0"
    and "isAppUsedBefore c" and "pageType rd = Some ''home-page''"
  shows "onNavigationEnd v rd nav c =
    (Some Redirect,
     (increaseAppUsedCount v ((routeUpdate rd c)\<lparr>isFirstNavigation := False\<rparr>))
       \<lparr>hideSponsorSection := True,
        effects := effects c @ [RouterNavigate ''/about'']\<rparr>)"
proof -
  from assms have "redirectCond (routeUpdate rd c)"
    by (simp add: redirectCond_def)
  then show ?thesis
    by (simp add: onNavigationEnd_def Let_def)
qed

text \<open>C2: in a browser, on the first navigation of the session, when the page is the
  home page, the current-version count is 0 and the used-before flag is true, the
  interceptor takes the redirect branch: it stores \<^verbatim>\<open>'1'\<close> as the count of the current
  version (read back as 1), hides the sponsor section, and navigates to \<^verbatim>\<open>/about\<close>. The
  sponsor section stays hidden whatever events follow in the session.\<close>

theorem first_use_redirect:
  assumes "isBrowser c" and "isFirstNavigation c" and "curVerAppUsedCount c = Num 0"
    and "isAppUsedBefore c" and "pageType rd = Some ''home-page''"
  shows "fst (onNavigationEnd v rd nav c) = Some Redirect \<and>
    k_appUsedCount (cacheService (snd (onNavigationEnd v rd nav c))) v = Some ''1'' \<and>
    getCurVerAppUsedCount v (snd (onNavigationEnd v rd nav c)) = Num 1 \<and>
    hideSponsorSection (snd (onNavigationEnd v rd nav c)) \<and>
    \<not> sponsorSectionVisible (snd (onNavigationEnd v rd nav c)) \<and>
    effects (snd (onNavigationEnd v rd nav c)) = effects c @ [RouterNavigate ''/about''] \<and>
    hideSponsorSection (snd (run v es (snd (onNavigationEnd v rd nav c)))) \<and>
    \<not> sponsorSectionVisible (snd (run v es (snd (onNavigationEnd v rd nav c))))"
proof -
  let ?c' = "snd (onNavigationEnd v rd nav c)"
  note eq = redirect_taken [OF assms, of v nav]
  have b: "fst (onNavigationEnd v rd nav c) = Some Redirect"
    by (simp add: eq)
  have sum: "js_add (Num 0) (Num 1) = Num 1"
    using toDouble_small [of 1] by (simp add: mantissa_def)
  have stored: "k_appUsedCount (cacheService ?c') v = Some (js_toString (Num 1))"
    using assms(1,3)
    by (simp add: eq increaseAppUsedCount_store sum del: js_toString.simps js_add.simps)
  then have one: "k_appUsedCount (cacheService ?c') v = Some ''1''"
    by (simp only: js_toString_1)
  from one have cnt: "getCurVerAppUsedCount v ?c' = Num 1"
    by (simp add: getCurVerAppUsedCount_def parseInt_1)
  have hide: "hideSponsorSection ?c'"
    by (simp add: eq)
  have eff: "effects ?c' = effects c @ [RouterNavigate ''/about'']"
    by (simp add: eq)
  from hide have later: "hideSponsorSection (snd (run v es ?c'))"
    by (rule run_hide)
  from b one cnt hide eff later show ?thesis
    by (simp add: sponsorSection_hidden)
qed

theorem first_use_redirect_witness:
  "isBrowser (AppComponent ex_appVersion ex_platform False ex_config ex_store_old) \<and>
   isFirstNavigation (AppComponent ex_appVersion ex_platform False ex_config ex_store_old) \<and>
   curVerAppUsedCount (AppComponent ex_appVersion ex_platform False ex_config ex_store_old) =
     Num 0 \<and>
   isAppUsedBefore (AppComponent ex_appVersion ex_platform False ex_config ex_store_old) \<and>
   pageType ex_home = Some ''home-page'' \<and>
   fst (onNavigationEnd ex_appVersion ex_home (Some True)
     (AppComponent ex_appVersion ex_platform False ex_config ex_store_old)) = Some Redirect \<and>
   k_appUsedCount (cacheService (snd (onNavigationEnd ex_appVersion ex_home (Some True)
     (AppComponent ex_appVersion ex_platform False ex_config ex_store_old)))) ex_appVersion =
     Some ''1'' \<and>
   effects (snd (onNavigationEnd ex_appVersion ex_home (Some True)
     (AppComponent ex_appVersion ex_platform False ex_config ex_store_old))) =
     [RouterNavigate ''/about'']"
proof -
  let ?c = "AppComponent ex_appVersion ex_platform False ex_config ex_store_old"
  have p: "isPlatformBrowser ex_platform" by (simp add: ex_platform_def)
  have h1: "isBrowser ?c" using p by (simp add: AppComponent_fields(1))
  have h2: "isFirstNavigation ?c" by (rule AppComponent_first)
  have "storedCount ex_appVersion ex_store_old = Num 0"
    by (simp add: storedCount_def ex_store_old_def ex_appVersion_def)
  then have h3: "curVerAppUsedCount ?c = Num 0"
    by (simp add: AppComponent_count [OF p])
  have h4: "isAppUsedBefore ?c" using p by (simp add: AppComponent_used ex_old_used)
  have h5: "pageType ex_home = Some ''home-page''" by (simp add: ex_home_def)
  have e: "effects ?c = []" by (rule AppComponent_fields(5))
  from h1 h2 h3 h4 h5 e first_use_redirect [OF h1 h2 h3 h4 h5, of ex_appVersion "Some True" "[]"]
  show ?thesis
    by simp
qed

section \<open>Sessions on one store\<close>














lemma onNavigationEnd_browser [simp]:
  "isBrowser (snd (onNavigationEnd v rd nav c)) = isBrowser c"
  by (simp add: onNavigationEnd_def Let_def)

lemma dispatch_browser [simp]: "isBrowser (snd (dispatch v e c)) = isBrowser c"
  by (cases e) simp_all

lemma run_browser [simp]: "isBrowser (snd (run v es c)) = isBrowser c"
  by (induction es arbitrary: c) (simp_all add: run_Cons del: run.simps(2))








section \<open>The theme preference\<close>








end
